theory Spec2Isabelle
  imports Complex_Main "HOL-Library.Char_ord" "HOL-Library.List_Lexorder" "HOL-Library.Multiset"
begin

section \<open>Python text primitives\<close>


definition is_space :: "char \<Rightarrow> bool" where
  "is_space c = (let n = (of_char c :: nat) in (9 \<le> n \<and> n \<le> 13) \<or> (28 \<le> n \<and> n \<le> 32))"

definition is_word :: "char \<Rightarrow> bool" where
  "is_word c = (let n = (of_char c :: nat) in
     (48 \<le> n \<and> n \<le> 57) \<or> (65 \<le> n \<and> n \<le> 90) \<or> n = 95 \<or> (97 \<le> n \<and> n \<le> 122))"

definition lower_char :: "char \<Rightarrow> char" where
  "lower_char c = (let n = (of_char c :: nat) in if 65 \<le> n \<and> n \<le> 90 then char_of (n + 32) else c)"

definition lower :: "string \<Rightarrow> string" where
  "lower s = map lower_char s"

definition lstrip :: "string \<Rightarrow> string" where
  "lstrip s = dropWhile is_space s"

definition rstrip :: "string \<Rightarrow> string" where
  "rstrip s = rev (dropWhile is_space (rev s))"

definition strip :: "string \<Rightarrow> string" where
  "strip s = rstrip (lstrip s)"

definition rstrip_char :: "char \<Rightarrow> string \<Rightarrow> string" where
  "rstrip_char x s = rev (dropWhile (\<lambda>c. c = x) (rev s))"

definition replace_char :: "char \<Rightarrow> char \<Rightarrow> string \<Rightarrow> string" where
  "replace_char old new s = map (\<lambda>c. if c = old then new else c) s"

definition delete_char :: "char \<Rightarrow> string \<Rightarrow> string" where
  "delete_char x s = filter (\<lambda>c. c \<noteq> x) s"

text \<open>
  \<open>re.sub(r'X+', r, s)\<close> for a character class \<open>X\<close> and a one-character replacement \<open>r\<close>:
  every maximal run of \<open>X\<close> characters becomes one \<open>r\<close>. The flag says whether the
  previous character belonged to a run.
\<close>

fun sub_runs :: "(char \<Rightarrow> bool) \<Rightarrow> char \<Rightarrow> bool \<Rightarrow> string \<Rightarrow> string" where
  "sub_runs X r in_run [] = []"
| "sub_runs X r in_run (c # cs) =
     (if X c then (if in_run then sub_runs X r True cs else r # sub_runs X r True cs)
      else c # sub_runs X r False cs)"

text \<open>\<open>str.split()\<close> with no argument: the maximal runs of non-space characters.\<close>

fun split_acc :: "string \<Rightarrow> string \<Rightarrow> string list" where
  "split_acc cur [] = (if cur = [] then [] else [cur])"
| "split_acc cur (c # cs) =
     (if is_space c then (if cur = [] then split_acc [] cs else cur # split_acc [] cs)
      else split_acc (cur @ [c]) cs)"

definition split :: "string \<Rightarrow> string list" where
  "split s = split_acc [] s"

fun join :: "string \<Rightarrow> string list \<Rightarrow> string" where
  "join sep [] = []"
| "join sep [w] = w"
| "join sep (w # v # ws) = w @ sep @ join sep (v # ws)"

text \<open>\<open>str(n)\<close> of a non-negative integer: its decimal digits.\<close>

definition digit_char :: "nat \<Rightarrow> char" where
  "digit_char d = ''0123456789'' ! d"

fun str_nat :: "nat \<Rightarrow> string" where
  "str_nat n = (if n < 10 then [digit_char n] else str_nat (n div 10) @ [digit_char (n mod 10)])"

declare str_nat.simps [simp del]

text \<open>The format \<open>{i:02d}\<close>: decimal digits, padded with zeros on the left to width 2.\<close>

definition format_02d :: "nat \<Rightarrow> string" where
  "format_02d i = (let s = str_nat i in replicate (2 - length s) (CHR ''0'') @ s)"

text \<open>
  \<open>pathlib.PurePath.name\<close> and \<open>.suffix\<close> of a normalised POSIX path (as \<open>Path.glob\<close> returns
  them): the name is the last component, the suffix starts at the last dot of the name
  provided that dot is neither the first nor the last character of the name.
\<close>

definition path_name :: "string \<Rightarrow> string" where
  "path_name p = rev (takeWhile (\<lambda>c. c \<noteq> CHR ''/'') (rev p))"

definition path_suffix :: "string \<Rightarrow> string" where
  "path_suffix p =
     (let name = path_name p;
          tail = takeWhile (\<lambda>c. c \<noteq> CHR ''.'') (rev name)
      in if tail \<noteq> [] \<and> length tail + 1 < length name
         then drop (length name - length tail - 1) name else [])"

section \<open>Descriptions and candidate filenames\<close>

text \<open>
  \<open>_describe_image\<close>, after the captioning backend has answered: the response is stripped,
  lowercased, both quote characters are removed, every character outside \<open>[\w\s-]\<close> is
  deleted, whitespace runs become one space, and the result is stripped again.
\<close>

definition clean_description :: "string \<Rightarrow> string" where
  "clean_description response =
     (let description = strip response;
          description = delete_char (CHR 0x27) (delete_char (CHR 0x22) (lower description));
          description = filter (\<lambda>c. is_word c \<or> is_space c \<or> c = CHR ''-'') description;
          description = sub_runs is_space (CHR '' '') False description
      in strip description)"

text \<open>
  The call of the backend is the argument: \<open>None\<close> when \<open>ollama.generate\<close> raised, in which
  case the \<open>except\<close> branch returns the literal \<open>unknown_image\<close>.
\<close>

definition describe_image :: "string option \<Rightarrow> string" where
  "describe_image response =
     (case response of None \<Rightarrow> ''unknown_image'' | Some r \<Rightarrow> clean_description r)"

definition generate_filename :: "string \<Rightarrow> string \<Rightarrow> string" where
  "generate_filename description original_path =
     (let ext = lower (path_suffix original_path);
          filename = replace_char (CHR '' '') (CHR ''_'') description;
          filename = filter (\<lambda>c. is_word c \<or> c = CHR ''-'' \<or> c = CHR ''_'') filename;
          filename = sub_runs (\<lambda>c. c = CHR ''_'') (CHR ''_'') False filename;
          filename = (if length filename > 100 then take 100 filename else filename);
          filename = rstrip_char (CHR ''_'') filename
      in filename @ ext)"




section \<open>Image records\<close>

text \<open>The dictionary \<open>image_info\<close> that \<open>_process_job\<close> builds for every processed image.\<close>

record image_info =
  original_path :: string
  original_name :: string
  description :: string
  new_filename :: string
  dimensions :: "nat \<times> nat"
  size_bytes :: nat

section \<open>Grouping by similarity\<close>

text \<open>
  An embedding is a vector of numbers. The \<open>float32\<close> arithmetic of numpy is idealised as
  exact real arithmetic; the one case in which numpy does not return a number is kept:
  with a zero norm the quotient is \<open>nan\<close> (a warning, no exception), and \<open>nan >= threshold\<close>
  is false.
\<close>

type_synonym embedding = "real list"

definition dot :: "embedding \<Rightarrow> embedding \<Rightarrow> real" where
  "dot a b = sum_list (map2 (*) a b)"

definition vec_norm :: "embedding \<Rightarrow> real" where
  "vec_norm a = sqrt (sum_list (map (\<lambda>x. x * x) a))"

definition similar :: "embedding \<Rightarrow> embedding \<Rightarrow> real \<Rightarrow> bool" where
  "similar a b threshold =
     (let d = vec_norm a * vec_norm b in d \<noteq> 0 \<and> dot a b / d \<ge> threshold)"

text \<open>
  The inner loop \<open>for j, other_img in enumerate(images)\<close>: the state is the group being
  built and the set \<open>used\<close> of claimed indices.
\<close>

fun scan_similar ::
  "embedding list \<Rightarrow> real \<Rightarrow> nat \<Rightarrow> (nat \<times> image_info) list \<Rightarrow>
   image_info list \<times> nat set \<Rightarrow> image_info list \<times> nat set" where
  "scan_similar embeddings threshold i [] (current_group, used) = (current_group, used)"
| "scan_similar embeddings threshold i ((j, other_img) # rest) (current_group, used) =
     (if j \<in> used then scan_similar embeddings threshold i rest (current_group, used)
      else if similar (embeddings ! i) (embeddings ! j) threshold
        then scan_similar embeddings threshold i rest (current_group @ [other_img], insert j used)
      else scan_similar embeddings threshold i rest (current_group, used))"

text \<open>The outer loop \<open>for i, img in enumerate(images)\<close>: the state is \<open>groups\<close> and \<open>used\<close>.\<close>

fun find_groups ::
  "embedding list \<Rightarrow> real \<Rightarrow> image_info list \<Rightarrow> (nat \<times> image_info) list \<Rightarrow>
   image_info list list \<times> nat set \<Rightarrow> image_info list list" where
  "find_groups embeddings threshold images [] (groups, used) = groups"
| "find_groups embeddings threshold images ((i, img) # rest) (groups, used) =
     (if i \<in> used then find_groups embeddings threshold images rest (groups, used)
      else
        (case scan_similar embeddings threshold i (enumerate 0 images) ([img], insert i used) of
          (current_group, used') \<Rightarrow>
            find_groups embeddings threshold images rest (groups @ [current_group], used')))"

subsection \<open>Naming the groups\<close>

text \<open>
  \<open>collections.Counter\<close> is a dictionary in insertion order, here the list of (word, count)
  pairs in the order in which the words were first seen. \<open>most_common(n)\<close> is documented as
  \<open>sorted(items, key=count, reverse=True)[:n]\<close>: a stable sort, so equal counts keep the
  insertion order.
\<close>

fun counter_add :: "(string \<times> nat) list \<Rightarrow> string \<Rightarrow> (string \<times> nat) list" where
  "counter_add [] w = [(w, 1)]"
| "counter_add ((k, c) # kcs) w =
     (if k = w then (k, c + 1) # kcs else (k, c) # counter_add kcs w)"

definition py_counter :: "string list \<Rightarrow> (string \<times> nat) list" where
  "py_counter ws = foldl counter_add [] ws"

definition most_common :: "nat \<Rightarrow> (string \<times> nat) list \<Rightarrow> (string \<times> nat) list" where
  "most_common n word_counts = take n (sort_key (\<lambda>(w, c). - int c) word_counts)"

definition all_words :: "image_info list \<Rightarrow> string list" where
  "all_words grp = concat (map (\<lambda>img. split (description img)) grp)"

definition common_words :: "image_info list \<Rightarrow> string list" where
  "common_words grp = map fst (most_common 3 (py_counter (all_words grp)))"

definition common_name :: "image_info list \<Rightarrow> string" where
  "common_name grp = join ''_'' (common_words grp)"

text \<open>
  The result is a \<open>dict\<close>, whose order is the insertion order: an association list.
  Assigning to a key that is present replaces its value in place; a new key goes to the end.
\<close>

type_synonym groups_dict = "(string \<times> image_info list) list"

fun dict_set :: "('k \<times> 'v) list \<Rightarrow> 'k \<Rightarrow> 'v \<Rightarrow> ('k \<times> 'v) list" where
  "dict_set [] k v = [(k, v)]"
| "dict_set ((k', v') # kvs) k v =
     (if k' = k then (k, v) # kvs else (k', v') # dict_set kvs k v)"

definition dict_keys :: "('k \<times> 'v) list \<Rightarrow> 'k list" where
  "dict_keys d = map fst d"

text \<open>A suffixed name taken by the dictionary, with a suffix not below \<open>counter\<close>.\<close>

definition taken_suffixes :: "string list \<Rightarrow> string \<Rightarrow> nat \<Rightarrow> nat set" where
  "taken_suffixes keys orig_name n =
     {k. n \<le> k \<and> orig_name @ ''_'' @ str_nat k \<in> set keys}"

lemma digit_char_inj: "a < 10 \<Longrightarrow> b < 10 \<Longrightarrow> digit_char a = digit_char b \<Longrightarrow> a = b"
proof -
  have ten: "\<And>n::nat. n < 10 \<longleftrightarrow> n \<in> {0, 1, 2, 3, 4, 5, 6, 7, 8, 9}" by auto
  show "a < 10 \<Longrightarrow> b < 10 \<Longrightarrow> digit_char a = digit_char b \<Longrightarrow> a = b"
    unfolding ten digit_char_def by auto
qed

lemma str_nat_not_Nil: "str_nat n \<noteq> []"
  by (subst str_nat.simps) simp

lemma str_nat_inj: "str_nat n = str_nat m \<Longrightarrow> n = m"
proof (induction n arbitrary: m rule: str_nat.induct)
  case (1 n)
  show ?case
  proof (cases "n < 10")
    case small: True
    show ?thesis
    proof (cases "m < 10")
      case True
      with small "1.prems" show ?thesis
        by (simp add: str_nat.simps [of n] str_nat.simps [of m] digit_char_inj)
    next
      case False
      with small "1.prems" str_nat_not_Nil [of "m div 10"] show ?thesis
        by (simp add: str_nat.simps [of n] str_nat.simps [of m] Cons_eq_append_conv)
    qed
  next
    case big: False
    show ?thesis
    proof (cases "m < 10")
      case True
      with big "1.prems" str_nat_not_Nil [of "n div 10"] show ?thesis
        by (simp add: str_nat.simps [of n] str_nat.simps [of m] append_eq_Cons_conv)
    next
      case False
      with big "1.prems" have e: "str_nat (n div 10) = str_nat (m div 10)"
        and d: "digit_char (n mod 10) = digit_char (m mod 10)"
        by (simp_all add: str_nat.simps [of n] str_nat.simps [of m])
      from "1.IH" [OF big e] have "n div 10 = m div 10" .
      moreover from d have "n mod 10 = m mod 10"
        by (intro digit_char_inj) simp_all
      ultimately show ?thesis
        by (metis div_mult_mod_eq)
    qed
  qed
qed

lemma finite_taken_suffixes: "finite (taken_suffixes keys orig_name n)"
proof -
  have "inj (\<lambda>k. orig_name @ ''_'' @ str_nat k)"
    by (auto simp: inj_on_def dest: str_nat_inj)
  then have "finite ((\<lambda>k. orig_name @ ''_'' @ str_nat k) -` set keys)"
    by (intro finite_vimageI) simp_all
  moreover have "taken_suffixes keys orig_name n
      \<subseteq> (\<lambda>k. orig_name @ ''_'' @ str_nat k) -` set keys"
    by (auto simp: taken_suffixes_def)
  ultimately show ?thesis by (rule rev_finite_subset)
qed

lemma taken_suffixes_step:
  "taken_suffixes keys orig_name n =
     (if orig_name @ ''_'' @ str_nat n \<in> set keys
      then insert n (taken_suffixes keys orig_name (Suc n))
      else taken_suffixes keys orig_name (Suc n))"
  by (auto simp: taken_suffixes_def Suc_le_eq le_less dest: str_nat_inj)

lemma card_taken_suffixes_step:
  "card (taken_suffixes keys orig_name n) =
     (if orig_name @ ''_'' @ str_nat n \<in> set keys
      then Suc (card (taken_suffixes keys orig_name (Suc n)))
      else card (taken_suffixes keys orig_name (Suc n)))"
proof -
  have "n \<notin> taken_suffixes keys orig_name (Suc n)"
    by (simp add: taken_suffixes_def)
  then show ?thesis
    by (subst taken_suffixes_step) (simp add: finite_taken_suffixes)
qed

text \<open>
  The loop \<open>while group_name in organized_groups\<close> (\<open>orig_name\<close> is the source's
  \<open>original_name\<close>). It ends because each suffix it tries
  is a different string, and the dictionary holds finitely many of them.
\<close>

function unique_name :: "(string \<times> 'v) list \<Rightarrow> string \<Rightarrow> string \<Rightarrow> nat \<Rightarrow> string" where
  "unique_name organized_groups orig_name group_name counter =
     (if group_name \<in> set (dict_keys organized_groups)
      then unique_name organized_groups orig_name
             (orig_name @ ''_'' @ str_nat counter) (counter + 1)
      else group_name)"
  by pat_completeness auto
termination
proof (relation "measure (\<lambda>(d, orig_name, group_name, counter).
    2 * card (taken_suffixes (dict_keys d) orig_name counter)
    + (if group_name \<in> set (dict_keys d) then 1 else 0))", goal_cases)
  case 1
  show ?case by simp
next
  case (2 organized_groups orig_name group_name counter)
  then show ?case
    by (simp add: card_taken_suffixes_step [of "dict_keys organized_groups" orig_name counter])
qed

declare unique_name.simps [simp del]

text \<open>
  The second loop of \<open>_group_similar_images\<close>: the state is \<open>organized_groups\<close> and
  \<open>catch_all\<close>. \<open>min_group_size\<close> is whatever integer the settings hold.
\<close>

fun name_groups ::
  "int \<Rightarrow> image_info list list \<Rightarrow> groups_dict \<times> image_info list \<Rightarrow>
   groups_dict \<times> image_info list" where
  "name_groups min_group_size [] (organized_groups, catch_all) = (organized_groups, catch_all)"
| "name_groups min_group_size (grp # groups) (organized_groups, catch_all) =
     (if int (length grp) \<ge> min_group_size
      then name_groups min_group_size groups
             (dict_set organized_groups
                (unique_name organized_groups (common_name grp) (common_name grp) 1) grp,
              catch_all)
      else name_groups min_group_size groups (organized_groups, catch_all @ grp))"

text \<open>
  \<open>_group_similar_images\<close>. The embedding backend is the argument \<open>encode\<close>, one vector per
  description (\<open>self.embedder.encode(descriptions)\<close> returns them in the order given).
\<close>

definition clusters :: "(string \<Rightarrow> embedding) \<Rightarrow> image_info list \<Rightarrow> real \<Rightarrow> image_info list list" where
  "clusters encode images threshold =
     find_groups (map encode (map description images)) threshold images
       (enumerate 0 images) ([], {})"

definition group_similar_images ::
  "(string \<Rightarrow> embedding) \<Rightarrow> image_info list \<Rightarrow> real \<Rightarrow> int \<Rightarrow> groups_dict" where
  "group_similar_images encode images threshold min_group_size =
     (case name_groups min_group_size (clusters encode images threshold) ([], []) of
       (organized_groups, catch_all) \<Rightarrow>
         if catch_all \<noteq> [] then dict_set organized_groups ''misc_singles'' catch_all
         else organized_groups)"

text \<open>
  Star clustering as the specification words it, on the indices of the records: the first
  unclaimed index seeds a cluster, a later unclaimed index joins it exactly when it is
  similar to the seed, and the indices left over are clustered in the same way.
\<close>

fun star_clusters :: "(nat \<Rightarrow> nat \<Rightarrow> bool) \<Rightarrow> nat list \<Rightarrow> nat list list" where
  "star_clusters sim [] = []"
| "star_clusters sim (i # unclaimed) =
     (i # filter (\<lambda>j. sim i j) unclaimed)
       # star_clusters sim (filter (\<lambda>j. \<not> sim i j) unclaimed)"



section \<open>Organizing files\<close>

text \<open>
  The effects on the file system are the operations the code asks for, in order. A
  destination is kept as the list of the components that the code joins with the \<open>/\<close>
  operator of \<open>pathlib\<close>. An exception that is not a failed file operation (\<open>images[0]\<close> on
  an empty list) is a step of its own.
\<close>

datatype fs_op =
    Mkdir "string list"
  | Copy string "string list"
  | Move string "string list"

datatype job_error = No_images_found | Embedding_error | Index_error | Fs_error fs_op

datatype fs_step = Op fs_op | Raise job_error

definition transfer :: "bool \<Rightarrow> string \<Rightarrow> string list \<Rightarrow> fs_step" where
  "transfer copy_files source dest = (if copy_files then Op (Copy source dest) else Op (Move source dest))"

text \<open>
  The body of the loop over \<open>groups.items()\<close>, after the folder of the group was made.
  \<open>images.sort(key=...)\<close> is a stable sort, and so is \<open>sort_key\<close>; strings compare by
  code point, lexicographically.
\<close>

definition organize_group :: "string list \<Rightarrow> image_info list \<Rightarrow> bool \<Rightarrow> fs_step list" where
  "organize_group group_folder images copy_files =
     (if length images > 1 then
        (let images = sort_key original_name images;
             base_desc = description (hd images);
             base_words = take 4 (split base_desc);
             base_name = join ''_'' base_words
         in map (\<lambda>(i, img).
                  (let ext = path_suffix (original_path img);
                       new_filename = base_name @ ''_'' @ format_02d i @ ext
                   in transfer copy_files (original_path img) (group_folder @ [new_filename])))
              (enumerate 1 images))
      else
        (case images of
           [] \<Rightarrow> [Raise Index_error]
         | img # _ \<Rightarrow>
             [transfer copy_files (original_path img) (group_folder @ [new_filename img])]))"

definition organize_files :: "groups_dict \<Rightarrow> string \<Rightarrow> bool \<Rightarrow> fs_step list" where
  "organize_files groups output_folder copy_files =
     Op (Mkdir [output_folder])
       # concat (map (\<lambda>(group_name, images).
                        Op (Mkdir [output_folder, group_name])
                          # organize_group [output_folder, group_name] images copy_files)
                   groups)"

text \<open>
  Running the steps: the operations done before the first step that fails, and the
  exception of that step if there is one. Whether an operation succeeds is decided by
  the file system, the argument \<open>ok\<close>.
\<close>

fun run_steps :: "(fs_op \<Rightarrow> bool) \<Rightarrow> fs_step list \<Rightarrow> fs_op list \<times> job_error option" where
  "run_steps ok [] = ([], None)"
| "run_steps ok (Raise e # steps) = ([], Some e)"
| "run_steps ok (Op x # steps) =
     (if ok x then (case run_steps ok steps of (performed, e) \<Rightarrow> (x # performed, e))
      else ([], Some (Fs_error x)))"

section \<open>The job\<close>

datatype job_status = Pending | Running | Completed | Error

record settings =
  model :: string
  similarity_threshold :: real
  min_group_size :: int
  copy_files :: bool

record job_results =
  result_total_images :: nat
  groups_created :: nat
  group_sizes :: "(string \<times> nat) list"

text \<open>
  The dictionary \<open>job_data\<close> (without \<open>start_time\<close>). \<open>progress\<close> is a Python float,
  idealised as a rational number; \<open>error\<close> holds \<open>str(e)\<close>, modelled by the kind of the
  exception (\<open>No_images_found\<close> stands for the message
  \<open>No images found in the specified folder\<close>).
\<close>

record job =
  job_id :: string
  status :: job_status
  progress :: rat
  total_images :: nat
  processed_images :: nat
  current_file :: string
  input_folder :: string
  output_folder :: string
  job_settings :: settings
  results :: "job_results option"
  error :: "job_error option"

definition create_job :: "string \<Rightarrow> string \<Rightarrow> string \<Rightarrow> settings \<Rightarrow> job" where
  "create_job new_id input output s =
     \<lparr>job_id = new_id, status = Pending, progress = 0, total_images = 0,
      processed_images = 0, current_file = [], input_folder = input, output_folder = output,
      job_settings = s, results = None, error = None\<rparr>"

text \<open>
  What the job meets outside the program: the paths below the input folder, the image
  library, the captioning backend, the file system and the embedding backend. \<open>None\<close>
  stands for a call that raises; \<open>embed_raises\<close> says that the call of the embedding
  backend raises.
\<close>

record world =
  entries :: "string list"
  open_image :: "string \<Rightarrow> (nat \<times> nat) option"
  ollama_generate :: "string \<Rightarrow> string \<Rightarrow> string option"
  stat_size :: "string \<Rightarrow> nat option"
  embed :: "string \<Rightarrow> embedding"
  embed_raises :: bool
  fs_ok :: "fs_op \<Rightarrow> bool"

subsection \<open>Finding the images\<close>

definition upper_char :: "char \<Rightarrow> char" where
  "upper_char c = (let n = (of_char c :: nat) in if 97 \<le> n \<and> n \<le> 122 then char_of (n - 32) else c)"

definition upper :: "string \<Rightarrow> string" where
  "upper s = map upper_char s"

definition ends_with :: "string \<Rightarrow> string \<Rightarrow> bool" where
  "ends_with s e = (length e \<le> length s \<and> drop (length s - length e) s = e)"

text \<open>
  \<open>input_path.glob("**/*" + ext)\<close> on a POSIX system: the paths anywhere below the folder
  whose last component ends with \<open>ext\<close>, compared case-sensitively.
\<close>

definition glob_ext :: "string list \<Rightarrow> string \<Rightarrow> string list" where
  "glob_ext paths ext = filter (\<lambda>p. ends_with (path_name p) ext) paths"

text \<open>
  \<open>image_extensions\<close> is a Python set, iterated in an order that Python does not fix;
  the order of the source text is taken.
\<close>

definition image_extensions :: "string list" where
  "image_extensions = [''.jpg'', ''.jpeg'', ''.png'', ''.bmp'', ''.tiff'', ''.webp'']"

definition find_images :: "string list \<Rightarrow> string list" where
  "find_images paths =
     concat (map (\<lambda>ext. glob_ext paths ext @ glob_ext paths (upper ext)) image_extensions)"

subsection \<open>Describing the images\<close>

text \<open>The body of the \<open>try\<close> in the loop over \<open>image_files\<close>, after the progress update.\<close>

definition process_image :: "world \<Rightarrow> string \<Rightarrow> string \<Rightarrow> image_info option" where
  "process_image w model_name image_path =
     (case open_image w image_path of
        None \<Rightarrow> None
      | Some dims \<Rightarrow>
          (let description = describe_image (ollama_generate w model_name image_path);
               new_filename = generate_filename description image_path
           in (case stat_size w image_path of
                 None \<Rightarrow> None
               | Some bytes \<Rightarrow>
                   Some \<lparr>original_path = image_path, original_name = path_name image_path,
                         description = description, new_filename = new_filename,
                         dimensions = dims, size_bytes = bytes\<rparr>)))"

text \<open>
  The loop \<open>for i, image_path in enumerate(image_files)\<close>. It returns the states of the
  job after each locked update, and \<open>processed_images\<close> (the list, here \<open>processed\<close>).
\<close>

fun describe_loop ::
  "world \<Rightarrow> nat \<Rightarrow> (nat \<times> string) list \<Rightarrow> job \<Rightarrow> image_info list \<Rightarrow> job list \<times> image_info list" where
  "describe_loop w n [] j processed = ([], processed)"
| "describe_loop w n ((i, image_path) # rest) j processed =
     (let j' = j\<lparr>current_file := path_name image_path, processed_images := i,
                 progress := (of_nat i / of_nat n) * 50\<rparr>;
          processed' = (case process_image w (model (job_settings j)) image_path of
                          None \<Rightarrow> processed
                        | Some image_info \<Rightarrow> processed @ [image_info])
      in (case describe_loop w n rest j' processed' of
            (states, result) \<Rightarrow> (j' # states, result)))"

subsection \<open>The whole job\<close>

text \<open>
  What can be seen of a job from outside, in the order in which it happens: the states
  written to the job table, one for each locked update, and the file operations done.
\<close>

datatype event = Update job | Did fs_op

fun job_states :: "event list \<Rightarrow> job list" where
  "job_states [] = []"
| "job_states (Update j # events) = j # job_states events"
| "job_states (Did x # events) = job_states events"

fun file_ops :: "event list \<Rightarrow> fs_op list" where
  "file_ops [] = []"
| "file_ops (Update j # events) = file_ops events"
| "file_ops (Did x # events) = x # file_ops events"

text \<open>
  \<open>_process_job\<close>, for a job as \<open>create_job\<close> stored it (the first event is that stored
  state). Grouping has no effect outside the program, and an exception of the embedding
  backend ends the job there; organizing makes its file operations after the update that
  sets the progress to 75.
\<close>

definition process_job :: "world \<Rightarrow> job \<Rightarrow> event list" where
  "process_job w job0 =
     (let j1 = job0\<lparr>status := Running\<rparr>;
          image_files = find_images (entries w);
          j2 = j1\<lparr>total_images := length image_files\<rparr>
      in if image_files = [] then
           [Update job0, Update j1, Update j2,
            Update (j2\<lparr>status := Error, error := Some No_images_found\<rparr>)]
         else
           (case describe_loop w (length image_files) (enumerate 0 image_files) j2 [] of
              (states, processed) \<Rightarrow>
                (let j3 = last (j2 # states);
                     j4 = j3\<lparr>current_file := ''Grouping similar images...'', progress := 50\<rparr>
                 in if embed_raises w then
                      [Update job0, Update j1, Update j2] @ map Update states
                        @ [Update j4, Update (j4\<lparr>status := Error, error := Some Embedding_error\<rparr>)]
                    else
                      (let groups = group_similar_images (embed w) processed
                                      (similarity_threshold (job_settings job0))
                                      (min_group_size (job_settings job0));
                           j5 = j4\<lparr>current_file := ''Organizing files...'', progress := 75\<rparr>
                       in (case run_steps (fs_ok w)
                                  (organize_files groups (output_folder job0)
                                     (copy_files (job_settings job0))) of
                             (performed, Some e) \<Rightarrow>
                               [Update job0, Update j1, Update j2] @ map Update states
                                 @ [Update j4, Update j5] @ map Did performed
                                 @ [Update (j5\<lparr>status := Error, error := Some e\<rparr>)]
                           | (performed, None) \<Rightarrow>
                               [Update job0, Update j1, Update j2] @ map Update states
                                 @ [Update j4, Update j5] @ map Did performed
                                 @ [Update (j5\<lparr>status := Completed, progress := 100,
                                      results := Some \<lparr>result_total_images = length processed,
                                                       groups_created = length groups,
                                                       group_sizes = map (\<lambda>(name, images). (name, length images)) groups\<rparr>,
                                      current_file := ''Complete!''\<rparr>)])))))"

subsection \<open>Notation for the states of a job\<close>

text \<open>The state after the locked update at the start of an iteration of the loop.\<close>

definition described :: "nat \<Rightarrow> job \<Rightarrow> nat \<times> string \<Rightarrow> job" where
  "described n j = (\<lambda>(i, image_path).
     j\<lparr>current_file := path_name image_path, processed_images := i,
       progress := (of_nat i / of_nat n) * 50\<rparr>)"

text \<open>The last state: the one the \<open>except\<close> branch writes, or the completed job.\<close>

definition final_state :: "job \<Rightarrow> job_error option \<Rightarrow> image_info list \<Rightarrow> groups_dict \<Rightarrow> job" where
  "final_state j5 e processed groups =
     (case e of
        Some x \<Rightarrow> j5\<lparr>status := Error, error := Some x\<rparr>
      | None \<Rightarrow> j5\<lparr>status := Completed, progress := 100,
                    results := Some \<lparr>result_total_images = length processed,
                                     groups_created = length groups,
                                     group_sizes = map (\<lambda>(name, images). (name, length images)) groups\<rparr>,
                    current_file := ''Complete!''\<rparr>)"

section \<open>Example inputs\<close>

text \<open>
  A record for a file \<open>/in/name\<close> with a given description, and a toy embedding backend
  that maps three descriptions to three orthogonal unit vectors.
\<close>

definition demo_image :: "string \<Rightarrow> string \<Rightarrow> image_info" where
  "demo_image name desc =
     \<lparr>original_path = ''/in/'' @ name, original_name = name, description = desc,
      new_filename = generate_filename desc (''/in/'' @ name),
      dimensions = (64, 64), size_bytes = 1024\<rparr>"

definition demo_encode :: "string \<Rightarrow> embedding" where
  "demo_encode d =
     (if d = ''misc_singles'' then [1, 0, 0, 0]
      else if d = ''red car'' then [0, 1, 0, 0]
      else if d = ''blue sky'' then [0, 0, 1, 0]
      else [0, 0, 0, 1])"

text \<open>
  A world in which the input folder holds the given paths, the image library opens
  exactly the paths of \<open>openable\<close>, the captioning backend answers \<open>Red Car\<close> for every
  image, the embedding backend returns and every file operation succeeds; and the default settings of \<open>start_job\<close> with a
  minimum group size.
\<close>

definition demo_world :: "string list \<Rightarrow> string list \<Rightarrow> world" where
  "demo_world paths openable =
     \<lparr>entries = paths,
      open_image = (\<lambda>p. if p \<in> set openable then Some (64, 64) else None),
      ollama_generate = (\<lambda>m p. Some ''Red Car''),
      stat_size = (\<lambda>p. Some 1024),
      embed = demo_encode,
      embed_raises = False,
      fs_ok = (\<lambda>x. True)\<rparr>"

definition demo_settings :: "int \<Rightarrow> settings" where
  "demo_settings m =
     \<lparr>model = ''qwen2.5vl'', similarity_threshold = 0.85, min_group_size = m, copy_files = True\<rparr>"

section \<open>Verified properties\<close>

subsection \<open>The example inputs\<close>

lemma description_demo_image: "description (demo_image n s) = s"
  by (simp add: demo_image_def)

lemma demo_encode_values:
  "demo_encode ''misc_singles'' = [1, 0, 0, 0]"
  "demo_encode ''red car'' = [0, 1, 0, 0]"
  "demo_encode ''blue sky'' = [0, 0, 1, 0]"
  by (simp_all add: demo_encode_def)

subsection \<open>Grouping: a cluster named like the catch-all group\<close>

lemma overwrite_clusters:
  "clusters demo_encode
      [demo_image ''a.jpg'' ''misc_singles'', demo_image ''b.jpg'' ''misc_singles'',
       demo_image ''c.jpg'' ''misc_singles'', demo_image ''d.jpg'' ''red car''] 0.85 =
     [[demo_image ''a.jpg'' ''misc_singles'', demo_image ''b.jpg'' ''misc_singles'',
       demo_image ''c.jpg'' ''misc_singles''], [demo_image ''d.jpg'' ''red car'']]"
  unfolding clusters_def list.map description_demo_image demo_encode_values
  by (simp add: enumerate_eq_zip upt_rec similar_def dot_def vec_norm_def)

lemma overwrite_name_groups:
  "name_groups 3
     [[demo_image ''a.jpg'' ''misc_singles'', demo_image ''b.jpg'' ''misc_singles'',
       demo_image ''c.jpg'' ''misc_singles''], [demo_image ''d.jpg'' ''red car'']] ([], []) =
    ([(''misc_singles'',
       [demo_image ''a.jpg'' ''misc_singles'', demo_image ''b.jpg'' ''misc_singles'',
        demo_image ''c.jpg'' ''misc_singles''])],
     [demo_image ''d.jpg'' ''red car''])"
  by code_simp

text \<open>
  C1 (grouping covers every record exactly once; the catch-all group is the last entry).
  On four records, three described as \<open>misc_singles\<close> and one as \<open>red car\<close>, with the
  default threshold 0.85 and minimum group size 3, the three similar records form a
  qualifying cluster whose name is \<open>misc_singles\<close>; the assignment of the catch-all group
  then replaces it, and the returned mapping holds one record of the four.
\<close>

theorem group_similar_images_overwrite:
  "group_similar_images demo_encode
      [demo_image ''a.jpg'' ''misc_singles'', demo_image ''b.jpg'' ''misc_singles'',
       demo_image ''c.jpg'' ''misc_singles'', demo_image ''d.jpg'' ''red car''] 0.85 3 =
     [(''misc_singles'', [demo_image ''d.jpg'' ''red car''])]"
  unfolding group_similar_images_def overwrite_clusters overwrite_name_groups by simp

subsection \<open>Grouping: the clustering loops are star clustering\<close>


lemma enumerate_nth: "enumerate 0 xs = map (\<lambda>j. (j, xs ! j)) [0..<length xs]"
  by (rule nth_equalityI) (simp_all add: nth_enumerate_eq)

lemma scan_similar_filter:
  "distinct js \<Longrightarrow>
   scan_similar emb t i (map (\<lambda>j. (j, images ! j)) js) (g, U) =
     (g @ map (\<lambda>j. images ! j) (filter (\<lambda>j. j \<notin> U \<and> similar (emb ! i) (emb ! j) t) js),
      U \<union> set (filter (\<lambda>j. j \<notin> U \<and> similar (emb ! i) (emb ! j) t) js))"
proof (induction js arbitrary: g U)
  case Nil
  show ?case by simp
next
  case (Cons j js)
  then have d: "distinct js" and nj: "j \<notin> set js" by simp_all
  have same: "filter (\<lambda>k. k \<notin> insert j U \<and> similar (emb ! i) (emb ! k) t) js =
      filter (\<lambda>k. k \<notin> U \<and> similar (emb ! i) (emb ! k) t) js"
    using nj by (intro filter_cong) auto
  show ?case
    using Cons.IH [OF d] same by auto
qed

lemma find_groups_star:
  "{0..<a} \<subseteq> U \<Longrightarrow> a \<le> length images \<Longrightarrow>
   find_groups emb t images (map (\<lambda>j. (j, images ! j)) [a..<length images]) (groups, U) =
     groups @ map (map (\<lambda>k. images ! k))
       (star_clusters (\<lambda>i j. similar (emb ! i) (emb ! j) t)
          (filter (\<lambda>k. k \<notin> U) [a..<length images]))"
proof (induction "length images - a" arbitrary: a groups U)
  case 0
  then show ?case by simp
next
  case (Suc d)
  let ?n = "length images"
  let ?S = "\<lambda>i j. similar (emb ! i) (emb ! j) t"
  from Suc.hyps have lt: "a < ?n" and d: "d = ?n - Suc a" by simp_all
  have upt: "[a..<?n] = a # [Suc a..<?n]" using lt by (simp add: upt_conv_Cons)
  show ?case
  proof (cases "a \<in> U")
    case True
    then have sub: "{0..<Suc a} \<subseteq> U" using Suc.prems(1) by (auto simp: less_Suc_eq)
    show ?thesis
      using Suc.hyps(1) [OF d sub, of groups] lt True by (simp add: upt)
  next
    case False
    let ?U' = "insert a U"
    let ?new = "filter (\<lambda>j. j \<notin> ?U' \<and> ?S a j) [0..<?n]"
    let ?R = "filter (\<lambda>k. k \<notin> U) [Suc a..<?n]"
    have split: "[0..<?n] = [0..<Suc a] @ [Suc a..<?n]"
      using lt by (metis Suc_leI le0 upt_add_eq_append le_add_diff_inverse)
    have "filter (\<lambda>j. j \<notin> ?U' \<and> ?S a j) [0..<Suc a] = []"
      using Suc.prems(1) by (auto simp: filter_empty_conv less_Suc_eq)
    then have new: "?new = filter (\<lambda>j. ?S a j) ?R"
      by (subst split) (auto intro: filter_cong)
    have scan: "scan_similar emb t a (enumerate 0 images) ([images ! a], ?U') =
        ([images ! a] @ map (\<lambda>j. images ! j) ?new, ?U' \<union> set ?new)"
      unfolding enumerate_nth by (rule scan_similar_filter) simp
    have sub: "{0..<Suc a} \<subseteq> ?U' \<union> set ?new"
      using Suc.prems(1) by (auto simp: less_Suc_eq)
    have rest: "filter (\<lambda>k. k \<notin> ?U' \<union> set ?new) [Suc a..<?n] = filter (\<lambda>j. \<not> ?S a j) ?R"
      by (auto intro: filter_cong)
    have "find_groups emb t images (map (\<lambda>j. (j, images ! j)) [a..<?n]) (groups, U) =
        find_groups emb t images (map (\<lambda>j. (j, images ! j)) [Suc a..<?n])
          (groups @ [[images ! a] @ map (\<lambda>j. images ! j) ?new], ?U' \<union> set ?new)"
      using False scan by (simp add: upt)
    also have "\<dots> = (groups @ [[images ! a] @ map (\<lambda>j. images ! j) ?new]) @
        map (map (\<lambda>k. images ! k)) (star_clusters ?S (filter (\<lambda>j. \<not> ?S a j) ?R))"
      using Suc.hyps(1) [OF d sub] lt rest by simp
    also have "\<dots> = groups @ map (map (\<lambda>k. images ! k)) (star_clusters ?S (a # ?R))"
      unfolding new by simp
    also have "a # ?R = filter (\<lambda>k. k \<notin> U) [a..<?n]"
      using False by (simp add: upt)
    finally show ?thesis .
  qed
qed

lemma clusters_as_star:
  "clusters encode images threshold =
     map (map (\<lambda>k. images ! k))
       (star_clusters
          (\<lambda>i j. similar (map encode (map description images) ! i)
                         (map encode (map description images) ! j) threshold)
          [0..<length images])"
  using find_groups_star [of 0 "{}" images "map encode (map description images)" threshold "[]"]
  by (simp add: clusters_def enumerate_nth)


subsection \<open>Grouping: the names of the groups\<close>














lemma unique_name_fresh:
  "unique_name d orig_name group_name counter \<notin> set (dict_keys d)"
proof (induction d orig_name group_name counter rule: unique_name.induct)
  case (1 d orig_name group_name counter)
  then show ?case by (subst unique_name.simps) simp
qed



lemma dict_set_fresh: "k \<notin> set (dict_keys d) \<Longrightarrow> dict_set d k v = d @ [(k, v)]"
  by (induction d) (auto simp: dict_keys_def)



lemma name_groups_named:
  "name_groups m groups (og0, ca0) = (og, ca) \<Longrightarrow> distinct (dict_keys og0) \<Longrightarrow>
   \<exists>named. og = og0 @ named
     \<and> map snd named = filter (\<lambda>g. m \<le> int (length g)) groups
     \<and> ca = ca0 @ concat (filter (\<lambda>g. \<not> m \<le> int (length g)) groups)
     \<and> distinct (dict_keys og)
     \<and> (\<forall>k<length named. fst (named ! k) =
           unique_name (og0 @ take k named) (common_name (snd (named ! k)))
             (common_name (snd (named ! k))) 1)"
proof (induction groups arbitrary: og0 ca0)
  case Nil
  then show ?case by simp
next
  case (Cons g groups)
  show ?case
  proof (cases "m \<le> int (length g)")
    case False
    with Cons.prems have "name_groups m groups (og0, ca0 @ g) = (og, ca)" by simp
    from Cons.IH [OF this Cons.prems(2)] False show ?thesis by auto
  next
    case True
    let ?r = "unique_name og0 (common_name g) (common_name g) 1"
    have fresh: "?r \<notin> set (dict_keys og0)" by (rule unique_name_fresh)
    then have set: "dict_set og0 ?r g = og0 @ [(?r, g)]" by (rule dict_set_fresh)
    have dist: "distinct (dict_keys (og0 @ [(?r, g)]))"
      using fresh Cons.prems(2) by (simp add: dict_keys_def)
    from True Cons.prems(1) set have "name_groups m groups (og0 @ [(?r, g)], ca0) = (og, ca)"
      by simp
    from Cons.IH [OF this dist] obtain named where n:
      "og = (og0 @ [(?r, g)]) @ named"
      "map snd named = filter (\<lambda>g. m \<le> int (length g)) groups"
      "ca = ca0 @ concat (filter (\<lambda>g. \<not> m \<le> int (length g)) groups)"
      "distinct (dict_keys og)"
      "\<forall>k<length named. fst (named ! k) =
           unique_name ((og0 @ [(?r, g)]) @ take k named) (common_name (snd (named ! k)))
             (common_name (snd (named ! k))) 1"
      by blast
    have "\<forall>k<length ((?r, g) # named). fst (((?r, g) # named) ! k) =
           unique_name (og0 @ take k ((?r, g) # named)) (common_name (snd (((?r, g) # named) ! k)))
             (common_name (snd (((?r, g) # named) ! k))) 1"
    proof (intro allI impI)
      fix k assume "k < length ((?r, g) # named)"
      then show "fst (((?r, g) # named) ! k) =
           unique_name (og0 @ take k ((?r, g) # named)) (common_name (snd (((?r, g) # named) ! k)))
             (common_name (snd (((?r, g) # named) ! k))) 1"
        using n(5) by (cases k) simp_all
    qed
    with n True show ?thesis
      by (intro exI [of _ "(?r, g) # named"]) simp
  qed
qed




lemma demo_clusters_A:
  "clusters demo_encode
      [demo_image ''a.jpg'' ''red car'', demo_image ''b.jpg'' ''blue sky'',
       demo_image ''c.jpg'' ''red car'', demo_image ''d.jpg'' ''blue sky'',
       demo_image ''e.jpg'' ''red car''] 0.99 =
     [[demo_image ''a.jpg'' ''red car'', demo_image ''c.jpg'' ''red car'',
       demo_image ''e.jpg'' ''red car''],
      [demo_image ''b.jpg'' ''blue sky'', demo_image ''d.jpg'' ''blue sky'']]"
  unfolding clusters_def list.map description_demo_image demo_encode_values
  by (simp add: enumerate_eq_zip upt_rec similar_def dot_def vec_norm_def)

lemma demo_name_groups_A:
  "name_groups 3
     [[demo_image ''a.jpg'' ''red car'', demo_image ''c.jpg'' ''red car'',
       demo_image ''e.jpg'' ''red car''],
      [demo_image ''b.jpg'' ''blue sky'', demo_image ''d.jpg'' ''blue sky'']] ([], []) =
   ([(''red_car'', [demo_image ''a.jpg'' ''red car'', demo_image ''c.jpg'' ''red car'',
       demo_image ''e.jpg'' ''red car''])],
    [demo_image ''b.jpg'' ''blue sky'', demo_image ''d.jpg'' ''blue sky''])"
  by code_simp

lemma demo_group_A:
  "group_similar_images demo_encode
      [demo_image ''a.jpg'' ''red car'', demo_image ''b.jpg'' ''blue sky'',
       demo_image ''c.jpg'' ''red car'', demo_image ''d.jpg'' ''blue sky'',
       demo_image ''e.jpg'' ''red car''] 0.99 3 =
   [(''red_car'', [demo_image ''a.jpg'' ''red car'', demo_image ''c.jpg'' ''red car'',
       demo_image ''e.jpg'' ''red car'']),
    (''misc_singles'', [demo_image ''b.jpg'' ''blue sky'', demo_image ''d.jpg'' ''blue sky''])]"
  unfolding group_similar_images_def demo_clusters_A demo_name_groups_A by simp


subsection \<open>Grouping: the partition when no cluster takes the catch-all name\<close>

lemma mset_concat_star_clusters: "mset (concat (star_clusters sim xs)) = mset xs"
proof (induction sim xs rule: star_clusters.induct)
  case (1 sim)
  show ?case by simp
next
  case (2 sim i unclaimed)
  have "mset (filter (\<lambda>j. sim i j) unclaimed) + mset (filter (\<lambda>j. \<not> sim i j) unclaimed)
      = mset unclaimed"
    by (induction unclaimed) simp_all
  with 2 show ?case by simp
qed

lemma mset_concat_clusters: "mset (concat (clusters encode images t)) = mset images"
proof -
  let ?sim = "\<lambda>i j. similar (map encode (map description images) ! i)
      (map encode (map description images) ! j) t"
  have "concat (clusters encode images t) =
      map (\<lambda>k. images ! k) (concat (star_clusters ?sim [0..<length images]))"
    unfolding clusters_as_star by (simp add: map_concat)
  then have "mset (concat (clusters encode images t)) =
      image_mset (\<lambda>k. images ! k) (mset (concat (star_clusters ?sim [0..<length images])))"
    by simp
  also have "\<dots> = mset (map (\<lambda>k. images ! k) [0..<length images])"
    unfolding mset_concat_star_clusters by simp
  also have "\<dots> = mset images" by (simp add: map_nth)
  finally show ?thesis .
qed

lemma mset_concat_filter_split:
  "mset (concat (filter P xss)) + mset (concat (filter (\<lambda>x. \<not> P x) xss)) = mset (concat xss)"
  by (induction xss) simp_all

text \<open>
  When no qualifying cluster is named \<open>misc_singles\<close>, the mapping is the named groups in
  discovery order, followed by the group \<open>misc_singles\<close> of the records of all smaller
  clusters unless there is none, and every input record is in exactly one group.
\<close>

theorem group_similar_images_partition:
  assumes "''misc_singles'' \<notin> set (dict_keys (fst (name_groups m (clusters encode images t) ([], []))))"
  shows "group_similar_images encode images t m =
      fst (name_groups m (clusters encode images t) ([], []))
        @ (if concat (filter (\<lambda>g. \<not> m \<le> int (length g)) (clusters encode images t)) = [] then []
           else [(''misc_singles'',
                  concat (filter (\<lambda>g. \<not> m \<le> int (length g)) (clusters encode images t)))])
    \<and> map snd (fst (name_groups m (clusters encode images t) ([], []))) =
        filter (\<lambda>g. m \<le> int (length g)) (clusters encode images t)
    \<and> mset (concat (map snd (group_similar_images encode images t m))) = mset images"
proof -
  let ?cl = "clusters encode images t"
  obtain og ca where r: "name_groups m ?cl ([], []) = (og, ca)"
    by (cases "name_groups m ?cl ([], [])")
  from name_groups_named [OF r] have
    named: "map snd og = filter (\<lambda>g. m \<le> int (length g)) ?cl"
    and ca: "ca = concat (filter (\<lambda>g. \<not> m \<le> int (length g)) ?cl)"
    by (auto simp: dict_keys_def)
  from assms have fresh: "''misc_singles'' \<notin> set (dict_keys og)" by (simp add: r)
  have res: "group_similar_images encode images t m =
      og @ (if ca = [] then [] else [(''misc_singles'', ca)])"
    by (simp add: group_similar_images_def r dict_set_fresh [OF fresh])
  have "mset (concat (map snd (group_similar_images encode images t m))) =
      mset (concat (map snd og)) + mset ca"
    unfolding res by simp
  also have "\<dots> = mset (concat ?cl)"
    unfolding named ca by (rule mset_concat_filter_split)
  also have "\<dots> = mset images" by (rule mset_concat_clusters)
  finally have all: "mset (concat (map snd (group_similar_images encode images t m))) = mset images" .
  note res' = res [unfolded ca]
  show ?thesis
    unfolding r fst_conv using res' named all by (intro conjI)

qed

theorem group_similar_images_partition_witness:
  "''misc_singles'' \<notin> set (dict_keys (fst (name_groups 3 (clusters demo_encode
      [demo_image ''a.jpg'' ''red car'', demo_image ''b.jpg'' ''blue sky'',
       demo_image ''c.jpg'' ''red car'', demo_image ''d.jpg'' ''blue sky'',
       demo_image ''e.jpg'' ''red car''] 0.99) ([], []))))
   \<and> group_similar_images demo_encode
      [demo_image ''a.jpg'' ''red car'', demo_image ''b.jpg'' ''blue sky'',
       demo_image ''c.jpg'' ''red car'', demo_image ''d.jpg'' ''blue sky'',
       demo_image ''e.jpg'' ''red car''] 0.99 3 =
     [(''red_car'', [demo_image ''a.jpg'' ''red car'', demo_image ''c.jpg'' ''red car'',
         demo_image ''e.jpg'' ''red car'']),
      (''misc_singles'', [demo_image ''b.jpg'' ''blue sky'', demo_image ''d.jpg'' ''blue sky''])]
   \<and> mset (concat (map snd (group_similar_images demo_encode
      [demo_image ''a.jpg'' ''red car'', demo_image ''b.jpg'' ''blue sky'',
       demo_image ''c.jpg'' ''red car'', demo_image ''d.jpg'' ''blue sky'',
       demo_image ''e.jpg'' ''red car''] 0.99 3))) =
     mset [demo_image ''a.jpg'' ''red car'', demo_image ''b.jpg'' ''blue sky'',
       demo_image ''c.jpg'' ''red car'', demo_image ''d.jpg'' ''blue sky'',
       demo_image ''e.jpg'' ''red car'']"
proof -
  have h: "''misc_singles'' \<notin> set (dict_keys (fst (name_groups 3 (clusters demo_encode
      [demo_image ''a.jpg'' ''red car'', demo_image ''b.jpg'' ''blue sky'',
       demo_image ''c.jpg'' ''red car'', demo_image ''d.jpg'' ''blue sky'',
       demo_image ''e.jpg'' ''red car''] 0.99) ([], []))))"
    unfolding demo_clusters_A demo_name_groups_A by (simp add: dict_keys_def)
  from group_similar_images_partition [OF h] h demo_group_A show ?thesis by blast
qed

subsection \<open>Candidate filenames\<close>



lemma list_all_dropWhile: "list_all Q s \<Longrightarrow> list_all Q (dropWhile P s)"
  by (induction s) auto


lemma list_all_rstrip_char: "list_all Q s \<Longrightarrow> list_all Q (rstrip_char x s)"
  by (simp add: rstrip_char_def list_all_dropWhile)














subsection \<open>Organizing: the names of the files\<close>












subsection \<open>The job: the states it goes through\<close>

lemma described_twice: "described n (described n j x) y = described n j y"
  by (cases x, cases y) (simp add: described_def)

lemma describe_loop_states: "fst (describe_loop w n xs j acc) = map (described n j) xs"
proof (induction xs arbitrary: j acc)
  case Nil
  show ?case by simp
next
  case (Cons x xs)
  obtain i p where x: "x = (i, p)" by (cases x)
  have j': "j\<lparr>current_file := path_name p, processed_images := i,
       progress := (of_nat i / of_nat n) * 50\<rparr> = described n j x"
    by (simp add: described_def x)
  show ?case
    unfolding x describe_loop.simps Let_def j' [unfolded x]
    using Cons.IH [of "described n j (i, p)"]
    by (simp add: split_beta described_twice)
qed

lemma describe_loop_skipped:
  "\<forall>x\<in>set xs. process_image w (model (job_settings j)) (snd x) = None \<Longrightarrow>
   snd (describe_loop w n xs j acc) = acc"
proof (induction xs arbitrary: j acc)
  case Nil
  show ?case by simp
next
  case (Cons x xs)
  obtain i p where x: "x = (i, p)" by (cases x)
  from Cons.prems have none: "process_image w (model (job_settings j)) p = None"
    and rest: "\<forall>y\<in>set xs. process_image w (model (job_settings j)) (snd y) = None"
    by (simp_all add: x)
  show ?case
    unfolding x describe_loop.simps Let_def
    using Cons.IH [of "j\<lparr>current_file := path_name p, processed_images := i,
       progress := (of_nat i / of_nat n) * 50\<rparr>" acc] rest none
    by (simp add: split_beta)
qed

lemma job_states_append [simp]: "job_states (xs @ ys) = job_states xs @ job_states ys"
  by (induction xs rule: job_states.induct) simp_all

lemma file_ops_append [simp]: "file_ops (xs @ ys) = file_ops xs @ file_ops ys"
  by (induction xs rule: file_ops.induct) simp_all

lemma job_states_map [simp]: "job_states (map Update js) = js" "job_states (map Did xs) = []"
  by (induction js, simp_all) (induction xs, simp_all)

lemma file_ops_map [simp]: "file_ops (map Update js) = []" "file_ops (map Did xs) = xs"
  by (induction js, simp_all) (induction xs, simp_all)

lemma process_job_empty:
  "find_images (entries w) = [] \<Longrightarrow>
   process_job w job0 =
     [Update job0, Update (job0\<lparr>status := Running\<rparr>),
      Update (job0\<lparr>status := Running, total_images := 0\<rparr>),
      Update (job0\<lparr>status := Error, total_images := 0, error := Some No_images_found\<rparr>)]"
  by (simp add: process_job_def Let_def)

lemma process_job_embed_raises:
  fixes w :: world and job0 :: job
  assumes ne: "find_images (entries w) \<noteq> []" and emb: "embed_raises w"
  defines "files \<equiv> find_images (entries w)"
  defines "j2 \<equiv> job0\<lparr>status := Running, total_images := length files\<rparr>"
  defines "states \<equiv> map (described (length files) j2) (enumerate 0 files)"
  defines "j4 \<equiv> (last (j2 # states))\<lparr>current_file := ''Grouping similar images...'', progress := 50\<rparr>"
  shows "process_job w job0 =
     map Update ([job0, job0\<lparr>status := Running\<rparr>, j2] @ states
       @ [j4, j4\<lparr>status := Error, error := Some Embedding_error\<rparr>])"
proof -
  obtain st pr where d: "describe_loop w (length files) (enumerate 0 files) j2 [] = (st, pr)"
    by (cases "describe_loop w (length files) (enumerate 0 files) j2 []")
  have st: "st = states"
    using describe_loop_states [of w "length files" "enumerate 0 files" j2 "[]"]
    by (simp add: d states_def)
  show ?thesis
    using ne emb d
    unfolding process_job_def Let_def files_def [symmetric] j2_def [symmetric]
    by (simp add: j2_def [symmetric] st j4_def)
qed

lemma process_job_events:
  fixes w :: world and job0 :: job
  assumes ne: "find_images (entries w) \<noteq> []" and emb: "\<not> embed_raises w"
  defines "files \<equiv> find_images (entries w)"
  defines "j2 \<equiv> job0\<lparr>status := Running, total_images := length files\<rparr>"
  defines "states \<equiv> map (described (length files) j2) (enumerate 0 files)"
  defines "processed \<equiv> snd (describe_loop w (length files) (enumerate 0 files) j2 [])"
  defines "groups \<equiv> group_similar_images (embed w) processed
      (similarity_threshold (job_settings job0)) (min_group_size (job_settings job0))"
  defines "outcome \<equiv> run_steps (fs_ok w)
      (organize_files groups (output_folder job0) (copy_files (job_settings job0)))"
  defines "j4 \<equiv> (last (j2 # states))\<lparr>current_file := ''Grouping similar images...'', progress := 50\<rparr>"
  defines "j5 \<equiv> j4\<lparr>current_file := ''Organizing files...'', progress := 75\<rparr>"
  shows "process_job w job0 =
     map Update ([job0, job0\<lparr>status := Running\<rparr>, j2] @ states @ [j4, j5])
       @ map Did (fst outcome) @ [Update (final_state j5 (snd outcome) processed groups)]"
proof -
  obtain st pr where d: "describe_loop w (length files) (enumerate 0 files) j2 [] = (st, pr)"
    by (cases "describe_loop w (length files) (enumerate 0 files) j2 []")
  have st: "st = states"
    using describe_loop_states [of w "length files" "enumerate 0 files" j2 "[]"]
    by (simp add: d states_def)
  have pr: "pr = processed" by (simp add: processed_def d)
  obtain performed e where o: "outcome = (performed, e)" by (cases outcome)
  show ?thesis
    using ne emb d o [unfolded outcome_def groups_def]
    unfolding process_job_def Let_def files_def [symmetric] j2_def [symmetric]
    apply (simp add: j2_def [symmetric] st pr)
    apply (cases e)
     apply (simp_all add: final_state_def j4_def j5_def o groups_def)
    done
qed

lemma process_job_nonempty:
  fixes w :: world and job0 :: job
  assumes ne: "find_images (entries w) \<noteq> []" and emb: "\<not> embed_raises w"
  defines "files \<equiv> find_images (entries w)"
  defines "j2 \<equiv> job0\<lparr>status := Running, total_images := length files\<rparr>"
  defines "states \<equiv> map (described (length files) j2) (enumerate 0 files)"
  defines "processed \<equiv> snd (describe_loop w (length files) (enumerate 0 files) j2 [])"
  defines "groups \<equiv> group_similar_images (embed w) processed
      (similarity_threshold (job_settings job0)) (min_group_size (job_settings job0))"
  defines "outcome \<equiv> run_steps (fs_ok w)
      (organize_files groups (output_folder job0) (copy_files (job_settings job0)))"
  defines "j4 \<equiv> (last (j2 # states))\<lparr>current_file := ''Grouping similar images...'', progress := 50\<rparr>"
  defines "j5 \<equiv> j4\<lparr>current_file := ''Organizing files...'', progress := 75\<rparr>"
  shows "job_states (process_job w job0) =
       [job0, job0\<lparr>status := Running\<rparr>, j2] @ states @
         [j4, j5, final_state j5 (snd outcome) processed groups]"
    and "file_ops (process_job w job0) = fst outcome"
  unfolding process_job_events [OF ne emb] files_def j2_def states_def processed_def groups_def
    outcome_def j4_def j5_def
  by (simp_all del: map_append list.map)

lemma progress_described: "progress (described n j x) = of_nat (fst x) / of_nat n * 50"
  by (cases x) (simp add: described_def)

lemma status_described: "status (described n j x) = status j"
  by (cases x) (simp add: described_def)

lemma last_described_fields:
  "status (last (j # map (described n j) xs)) = status j
   \<and> error (last (j # map (described n j) xs)) = error j
   \<and> results (last (j # map (described n j) xs)) = results j"
  by (induction xs rule: rev_induct) (auto simp: described_def split_beta)

lemma map_progress_described:
  "map progress (map (described n j) (enumerate 0 files)) =
     map (\<lambda>i. of_nat i / of_nat n * 50) [0..<length files]"
  by (simp add: enumerate_nth progress_described comp_def)

lemma process_job_progress:
  fixes w :: world and job0 :: job
  assumes ne: "find_images (entries w) \<noteq> []" and emb: "\<not> embed_raises w"
    and p0: "progress job0 = 0"
  defines "n \<equiv> length (find_images (entries w))"
  shows "\<exists>x. map progress (job_states (process_job w job0)) =
      [0, 0, 0] @ map (\<lambda>i. of_nat i / of_nat n * 50) [0..<n] @ [50, 75, x]
    \<and> progress (last (job_states (process_job w job0))) = x
    \<and> ((x = 100 \<and> status (last (job_states (process_job w job0))) = Completed)
        \<or> (x = 75 \<and> status (last (job_states (process_job w job0))) = Error))"
proof -
  let ?files = "find_images (entries w)"
  let ?j2 = "job0\<lparr>status := Running, total_images := length ?files\<rparr>"
  let ?states = "map (described (length ?files) ?j2) (enumerate 0 ?files)"
  let ?j4 = "(last (?j2 # ?states))\<lparr>current_file := ''Grouping similar images...'', progress := 50\<rparr>"
  let ?j5 = "?j4\<lparr>current_file := ''Organizing files...'', progress := 75\<rparr>"
  from process_job_nonempty [OF ne emb, of job0] obtain fin where
    tr: "job_states (process_job w job0) = [job0, job0\<lparr>status := Running\<rparr>, ?j2] @ ?states @ [?j4, ?j5, fin]"
    and fin: "(\<exists>e. fin = ?j5\<lparr>status := Error, error := Some e\<rparr>)
       \<or> (\<exists>r. fin = ?j5\<lparr>status := Completed, progress := 100, results := Some r,
              current_file := ''Complete!''\<rparr>)"
    by (auto simp: final_state_def split: option.splits)
  have p: "map progress (job_states (process_job w job0)) =
      [0, 0, 0] @ map (\<lambda>i. of_nat i / of_nat n * 50) [0..<n] @ [50, 75, progress fin]"
    unfolding tr by (simp add: p0 map_progress_described n_def del: map_map)
  have l: "last (job_states (process_job w job0)) = fin" unfolding tr by simp
  from fin have "(progress fin = 100 \<and> status fin = Completed)
      \<or> (progress fin = 75 \<and> status fin = Error)"
    by auto
  with p l show ?thesis by auto
qed

lemma process_job_states:
  fixes w :: world and job0 :: job
  assumes ne: "find_images (entries w) \<noteq> []" and emb: "\<not> embed_raises w"
  defines "files \<equiv> find_images (entries w)"
  defines "j2 \<equiv> job0\<lparr>status := Running, total_images := length files\<rparr>"
  shows "\<exists>j4 j5 fin. job_states (process_job w job0) =
      [job0, job0\<lparr>status := Running\<rparr>, j2] @ map (described (length files) j2) (enumerate 0 files)
        @ [j4, j5, fin]
    \<and> status j4 = Running \<and> status j5 = Running \<and> status fin \<in> {Completed, Error}"
proof -
  let ?states = "map (described (length files) j2) (enumerate 0 files)"
  have "status (last (j2 # ?states)) = Running"
    using last_described_fields [of j2 "length files" "enumerate 0 files"]
    by (simp add: j2_def)
  then show ?thesis
    using process_job_nonempty [OF ne emb, of job0]
    unfolding files_def [symmetric] j2_def [symmetric]
    by (auto simp: final_state_def split: option.splits)
qed







subsection \<open>A run of the example job\<close>

lemma demo_find_images:
  "find_images (entries (demo_world [''/in/a.jpg'', ''/in/b.png''] openable)) =
     [''/in/a.jpg'', ''/in/b.png'']"
proof -
  have "find_images [''/in/a.jpg'', ''/in/b.png''] = [''/in/a.jpg'', ''/in/b.png'']"
    by code_simp
  then show ?thesis by (simp add: demo_world_def)
qed

lemma demo_process_image:
  "process_image (demo_world paths [''/in/a.jpg'']) m ''/in/a.jpg'' = Some (demo_image ''a.jpg'' ''red car'')"
  "process_image (demo_world paths [''/in/a.jpg'']) m ''/in/b.png'' = None"
proof -
  have c: "clean_description ''Red Car'' = ''red car''" by code_simp
  have n: "path_name ''/in/a.jpg'' = ''a.jpg''" by code_simp
  show "process_image (demo_world paths [''/in/a.jpg'']) m ''/in/a.jpg'' = Some (demo_image ''a.jpg'' ''red car'')"
    by (simp add: process_image_def demo_world_def describe_image_def c n demo_image_def Let_def)
  show "process_image (demo_world paths [''/in/a.jpg'']) m ''/in/b.png'' = None"
    by (simp add: process_image_def demo_world_def)
qed

lemma demo_processed:
  "snd (describe_loop (demo_world paths [''/in/a.jpg'']) n
          (enumerate 0 [''/in/a.jpg'', ''/in/b.png'']) j []) =
     [demo_image ''a.jpg'' ''red car'']"
  by (simp add: enumerate_eq_zip upt_rec demo_process_image Let_def split_beta)

lemma demo_groups:
  "group_similar_images demo_encode [demo_image ''a.jpg'' ''red car''] t 1 =
     [(''red_car'', [demo_image ''a.jpg'' ''red car''])]"
proof -
  have c: "clusters demo_encode [demo_image ''a.jpg'' ''red car''] t = [[demo_image ''a.jpg'' ''red car'']]"
    by (simp add: clusters_def enumerate_eq_zip upt_rec)
  have n: "name_groups 1 [[demo_image ''a.jpg'' ''red car'']] ([], []) =
      ([(''red_car'', [demo_image ''a.jpg'' ''red car''])], [])"
    by code_simp
  show ?thesis unfolding group_similar_images_def c n by simp
qed

lemma demo_organize:
  "organize_files [(''red_car'', [demo_image ''a.jpg'' ''red car''])] ''/out'' True =
     [Op (Mkdir [''/out'']), Op (Mkdir [''/out'', ''red_car'']),
      Op (Copy ''/in/a.jpg'' [''/out'', ''red_car'', ''red_car.jpg''])]"
  by code_simp

lemma demo_job_run:
  "status (last (job_states (process_job (demo_world [''/in/a.jpg'', ''/in/b.png''] [''/in/a.jpg''])
      (create_job ''job-1'' ''/in'' ''/out'' (demo_settings 1))))) = Completed
   \<and> file_ops (process_job (demo_world [''/in/a.jpg'', ''/in/b.png''] [''/in/a.jpg''])
      (create_job ''job-1'' ''/in'' ''/out'' (demo_settings 1))) =
     [Mkdir [''/out''], Mkdir [''/out'', ''red_car''],
      Copy ''/in/a.jpg'' [''/out'', ''red_car'', ''red_car.jpg'']]"
proof -
  let ?w = "demo_world [''/in/a.jpg'', ''/in/b.png''] [''/in/a.jpg'']"
  let ?j = "create_job ''job-1'' ''/in'' ''/out'' (demo_settings 1)"
  have ne: "find_images (entries ?w) \<noteq> []" by (simp add: demo_find_images)
  have emb: "\<not> embed_raises ?w" by (simp add: demo_world_def)
  have s: "embed ?w = demo_encode" "fs_ok ?w = (\<lambda>x. True)"
    "min_group_size (job_settings ?j) = 1" "output_folder ?j = ''/out''"
    "copy_files (job_settings ?j) = True"
    by (simp_all add: demo_world_def create_job_def demo_settings_def)
  show ?thesis
    unfolding process_job_nonempty [OF ne emb] demo_find_images demo_processed s demo_groups demo_organize
    by (simp add: final_state_def)
qed


subsection \<open>The job: progress never decreases\<close>

lemma progress_step_bounds:
  fixes n :: nat
  assumes "0 < n" and "k < n"
  shows "0 \<le> rat_of_nat k / rat_of_nat n * 50" and "rat_of_nat k / rat_of_nat n * 50 < 50"
  using assms by (simp_all add: divide_less_eq)

lemma sorted_progress_steps:
  "sorted (map (\<lambda>k. rat_of_nat k / rat_of_nat n * 50) [0..<m])"
proof -
  have "sorted_wrt (\<lambda>a b. rat_of_nat a / rat_of_nat n * 50 \<le> rat_of_nat b / rat_of_nat n * 50) [0..<m]"
    by (rule sorted_wrt_mono_rel [where P = "(<)"]) (auto intro!: divide_right_mono)
  then show ?thesis by (simp add: sorted_wrt_map)
qed

lemma sorted_progress_list:
  assumes "0 < n" and "sorted tail" and "\<forall>y\<in>set tail. 50 \<le> y"
  shows "sorted ([0, 0, 0] @ map (\<lambda>k. rat_of_nat k / rat_of_nat n * 50) [0..<n] @ (tail :: rat list))"
proof -
  have "\<forall>y\<in>set (map (\<lambda>k. rat_of_nat k / rat_of_nat n * 50) [0..<n]). 0 \<le> y \<and> y < 50"
    using progress_step_bounds [OF assms(1)] by auto
  then show ?thesis
    using assms(2,3) sorted_progress_steps [of n n]
    by (fastforce simp: sorted_append)
qed

lemma progress_monotone_organized:
  assumes ne: "find_images (entries w) \<noteq> []" and emb: "\<not> embed_raises w"
  shows
  "sorted (map progress (job_states (process_job w (create_job i inp out s))))
   \<and> (\<forall>st\<in>set (job_states (process_job w (create_job i inp out s))).
         progress st = 100 \<longrightarrow> status st = Completed)
   \<and> (\<forall>st\<in>set (butlast (job_states (process_job w (create_job i inp out s)))).
         status st = Pending \<or> status st = Running)
   \<and> (status (last (job_states (process_job w (create_job i inp out s)))) = Completed
       \<or> status (last (job_states (process_job w (create_job i inp out s)))) = Error)"
proof -
  let ?job0 = "create_job i inp out s"
  let ?tr = "job_states (process_job w ?job0)"
  let ?n = "length (find_images (entries w))"
  let ?f = "\<lambda>k. rat_of_nat k / rat_of_nat ?n * 50"
  have n: "0 < ?n" using ne by simp
  have p0: "progress ?job0 = 0" by (simp add: create_job_def)
  from process_job_progress [OF ne emb p0] obtain x where
    prog: "map progress ?tr = [0, 0, 0] @ map ?f [0..<?n] @ [50, 75, x]"
    and last: "progress (last ?tr) = x"
    and x: "(x = 100 \<and> status (last ?tr) = Completed) \<or> (x = 75 \<and> status (last ?tr) = Error)"
    by blast
  from process_job_states [OF ne emb, of ?job0] obtain j4 j5 fin where
    tr: "?tr = [?job0, ?job0\<lparr>status := Running\<rparr>,
                ?job0\<lparr>status := Running, total_images := ?n\<rparr>]
          @ map (described ?n (?job0\<lparr>status := Running, total_images := ?n\<rparr>))
              (enumerate 0 (find_images (entries w)))
          @ [j4, j5, fin]"
    and st: "status j4 = Running" "status j5 = Running"
    by blast
  have sorted: "sorted (map progress ?tr)"
    unfolding prog using x by (intro sorted_progress_list [OF n]) auto
  have front: "butlast ?tr = [?job0, ?job0\<lparr>status := Running\<rparr>,
                ?job0\<lparr>status := Running, total_images := ?n\<rparr>]
          @ map (described ?n (?job0\<lparr>status := Running, total_images := ?n\<rparr>))
              (enumerate 0 (find_images (entries w)))
          @ [j4, j5]"
    unfolding tr by (simp add: butlast_append)
  have running: "\<forall>st\<in>set (butlast ?tr). status st = Pending \<or> status st = Running"
    unfolding front using st by (auto simp: status_described create_job_def)
  have "map progress (butlast ?tr) = butlast (map progress ?tr)"
    by (rule map_butlast)
  also have "\<dots> = [0, 0, 0] @ map ?f [0..<?n] @ [50, 75]"
    unfolding prog by (simp add: butlast_append)
  finally have pb: "map progress (butlast ?tr) = [0, 0, 0] @ map ?f [0..<?n] @ [50, 75]" .
  have small: "?f k < 100" if "k < ?n" for k
    using progress_step_bounds(2) [OF n that] by linarith
  have "set (map progress (butlast ?tr)) \<subseteq> {y. y < 100}"
    unfolding pb using small by auto
  then have below: "\<forall>st\<in>set (butlast ?tr). progress st \<noteq> 100"
    by auto
  have nonempty: "?tr \<noteq> []" unfolding tr by simp
  have "\<forall>st\<in>set ?tr. progress st = 100 \<longrightarrow> status st = Completed"
  proof
    fix st assume "st \<in> set ?tr"
    then have "st \<in> set (butlast ?tr) \<or> st = last ?tr"
      using nonempty by (metis append_butlast_last_id in_set_conv_decomp_first rotate1.simps(2) set_ConsD set_rotate1)
    then show "progress st = 100 \<longrightarrow> status st = Completed"
      using below last x by auto
  qed
  with sorted running x show ?thesis by blast
qed

lemma progress_monotone_embed_raises:
  assumes ne: "find_images (entries w) \<noteq> []" and emb: "embed_raises w"
  shows
  "sorted (map progress (job_states (process_job w (create_job i inp out s))))
   \<and> (\<forall>st\<in>set (job_states (process_job w (create_job i inp out s))).
         progress st = 100 \<longrightarrow> status st = Completed)
   \<and> (\<forall>st\<in>set (butlast (job_states (process_job w (create_job i inp out s)))).
         status st = Pending \<or> status st = Running)
   \<and> (status (last (job_states (process_job w (create_job i inp out s)))) = Completed
       \<or> status (last (job_states (process_job w (create_job i inp out s)))) = Error)"
proof -
  let ?job0 = "create_job i inp out s"
  let ?n = "length (find_images (entries w))"
  let ?j2 = "?job0\<lparr>status := Running, total_images := ?n\<rparr>"
  let ?states = "map (described ?n ?j2) (enumerate 0 (find_images (entries w)))"
  let ?j4 = "(last (?j2 # ?states))\<lparr>current_file := ''Grouping similar images...'', progress := 50\<rparr>"
  let ?f = "\<lambda>k. rat_of_nat k / rat_of_nat ?n * 50"
  have n: "0 < ?n" using ne by simp
  have tr: "job_states (process_job w ?job0) =
      ([?job0, ?job0\<lparr>status := Running\<rparr>, ?j2] @ ?states @ [?j4])
        @ [?j4\<lparr>status := Error, error := Some Embedding_error\<rparr>]"
    unfolding process_job_embed_raises [OF ne emb] job_states_map by simp
  have running: "status ?j4 = Running"
    using last_described_fields [of ?j2 ?n "enumerate 0 (find_images (entries w))"]
    by (simp add: create_job_def)
  have prog: "map progress (job_states (process_job w ?job0)) =
      [0, 0, 0] @ map ?f [0..<?n] @ [50, 50]"
    unfolding tr by (simp add: create_job_def map_progress_described del: map_map)
  have sorted: "sorted (map progress (job_states (process_job w ?job0)))"
    unfolding prog by (intro sorted_progress_list [OF n]) simp_all
  have small: "?f k < 100" if "k < ?n" for k
    using progress_step_bounds(2) [OF n that] by linarith
  have "set (map progress (job_states (process_job w ?job0))) \<subseteq> {y. y < 100}"
    unfolding prog using small by auto
  then have below: "\<forall>st\<in>set (job_states (process_job w ?job0)). progress st \<noteq> 100"
    by auto
  have front: "\<forall>st\<in>set (butlast (job_states (process_job w ?job0))).
      status st = Pending \<or> status st = Running"
    unfolding tr butlast_snoc using running
    by (auto simp: status_described create_job_def)
  have last: "status (last (job_states (process_job w ?job0))) = Error"
    unfolding tr by simp
  from sorted below front last show ?thesis by blast
qed

text \<open>
  C7 (progress is monotone, and 100 only when Completed). For any world and any job as
  \<open>create_job\<close> stores it, the progress values of the successive states of the job never
  decrease; a state with progress 100 has status Completed; every state but the last is
  Pending or Running, and the last is Completed or Error. A status read returns one of
  these states, and later reads return later states.
\<close>

theorem progress_monotone:
  "sorted (map progress (job_states (process_job w (create_job i inp out s))))
   \<and> (\<forall>st\<in>set (job_states (process_job w (create_job i inp out s))).
         progress st = 100 \<longrightarrow> status st = Completed)
   \<and> (\<forall>st\<in>set (butlast (job_states (process_job w (create_job i inp out s)))).
         status st = Pending \<or> status st = Running)
   \<and> (status (last (job_states (process_job w (create_job i inp out s)))) = Completed
       \<or> status (last (job_states (process_job w (create_job i inp out s)))) = Error)"
proof (cases "find_images (entries w) = []")
  case True
  show ?thesis
    unfolding process_job_empty [OF True] by (simp add: create_job_def)
next
  case False
  show ?thesis
  proof (cases "embed_raises w")
    case True
    with False show ?thesis by (rule progress_monotone_embed_raises)
  next
    case no: False
    with False show ?thesis by (rule progress_monotone_organized)
  qed
qed

theorem progress_monotone_witness:
  "sorted (map progress (job_states (process_job (demo_world [''/in/a.jpg'', ''/in/b.png''] [''/in/a.jpg''])
      (create_job ''job-1'' ''/in'' ''/out'' (demo_settings 1)))))
   \<and> last (job_states (process_job (demo_world [''/in/a.jpg'', ''/in/b.png''] [''/in/a.jpg''])
      (create_job ''job-1'' ''/in'' ''/out'' (demo_settings 1))))
     \<in> set (job_states (process_job (demo_world [''/in/a.jpg'', ''/in/b.png''] [''/in/a.jpg''])
      (create_job ''job-1'' ''/in'' ''/out'' (demo_settings 1))))
   \<and> progress (last (job_states (process_job (demo_world [''/in/a.jpg'', ''/in/b.png''] [''/in/a.jpg''])
      (create_job ''job-1'' ''/in'' ''/out'' (demo_settings 1))))) = 100
   \<and> status (last (job_states (process_job (demo_world [''/in/a.jpg'', ''/in/b.png''] [''/in/a.jpg''])
      (create_job ''job-1'' ''/in'' ''/out'' (demo_settings 1))))) = Completed"
proof -
  let ?w = "demo_world [''/in/a.jpg'', ''/in/b.png''] [''/in/a.jpg'']"
  let ?j = "create_job ''job-1'' ''/in'' ''/out'' (demo_settings 1)"
  have c: "status (last (job_states (process_job ?w ?j))) = Completed"
    using demo_job_run by blast
  have ne: "find_images (entries ?w) \<noteq> []" by (simp add: demo_find_images)
  have emb: "\<not> embed_raises ?w" by (simp add: demo_world_def)
  have p0: "progress ?j = 0" by (simp add: create_job_def)
  from process_job_progress [OF ne emb p0] c have p: "progress (last (job_states (process_job ?w ?j))) = 100"
    by auto
  from process_job_states [OF ne emb, of ?j] have "job_states (process_job ?w ?j) \<noteq> []"
    by auto
  then have m: "last (job_states (process_job ?w ?j)) \<in> set (job_states (process_job ?w ?j))"
    by (rule last_in_set)
  from progress_monotone [of ?w "''job-1''" "''/in''" "''/out''" "demo_settings 1"]
  have "sorted (map progress (job_states (process_job ?w ?j)))" by blast
  with m p c show ?thesis by blast
qed

subsection \<open>The job: no image found, or every image skipped\<close>




lemma group_similar_images_Nil: "group_similar_images encode [] threshold m = []"
  by (simp add: group_similar_images_def clusters_def)

lemma organize_files_Nil: "organize_files [] out c = [Op (Mkdir [out])]"
  by (simp add: organize_files_def)

lemma process_job_all_skipped:
  assumes "find_images (entries w) \<noteq> []"
    and "\<forall>p\<in>set (find_images (entries w)). process_image w (model (job_settings job0)) p = None"
    and "fs_ok w (Mkdir [output_folder job0])"
    and "\<not> embed_raises w"
  shows "status (last (job_states (process_job w job0))) = Completed
    \<and> progress (last (job_states (process_job w job0))) = 100
    \<and> results (last (job_states (process_job w job0))) =
        Some \<lparr>result_total_images = 0, groups_created = 0, group_sizes = []\<rparr>
    \<and> error (last (job_states (process_job w job0))) = error job0
    \<and> file_ops (process_job w job0) = [Mkdir [output_folder job0]]"
proof -
  let ?files = "find_images (entries w)"
  let ?j2 = "job0\<lparr>status := Running, total_images := length ?files\<rparr>"
  have "\<forall>x\<in>set (enumerate 0 ?files). process_image w (model (job_settings ?j2)) (snd x) = None"
    using assms(2) by (auto simp: enumerate_eq_zip dest: set_zip_rightD)
  then have none: "snd (describe_loop w (length ?files) (enumerate 0 ?files) ?j2 []) = []"
    by (rule describe_loop_skipped)
  have e: "error (last (?j2 # map (described (length ?files) ?j2) (enumerate 0 ?files))) = error job0"
    using last_described_fields [of ?j2 "length ?files" "enumerate 0 ?files"] by simp
  show ?thesis
    unfolding process_job_nonempty [OF assms(1,4)] none group_similar_images_Nil organize_files_Nil
    using assms(3) e by (simp add: final_state_def)
qed

text \<open>
  C10 (every discovered image is skipped). When at least one file is discovered, the
  processing of each of them raises, the embedding backend returns (on the empty list of
  descriptions) and the output folder can be made, the job groups the
  empty list of records into the empty mapping, makes the output folder and nothing
  else, and ends Completed with progress 100 and the results 0 images, 0 groups and no
  entry, \<open>misc_singles\<close> included.
\<close>

theorem all_images_skipped:
  assumes "find_images (entries w) \<noteq> []"
    and "\<forall>p\<in>set (find_images (entries w)). process_image w (model s) p = None"
    and "\<not> embed_raises w"
    and "fs_ok w (Mkdir [out])"
  shows "status (last (job_states (process_job w (create_job i inp out s)))) = Completed
    \<and> progress (last (job_states (process_job w (create_job i inp out s)))) = 100
    \<and> results (last (job_states (process_job w (create_job i inp out s)))) =
        Some \<lparr>result_total_images = 0, groups_created = 0, group_sizes = []\<rparr>
    \<and> error (last (job_states (process_job w (create_job i inp out s)))) = None
    \<and> file_ops (process_job w (create_job i inp out s)) = [Mkdir [out]]
    \<and> group_similar_images (embed w) [] (similarity_threshold s) (min_group_size s) = []"
  using process_job_all_skipped [of w "create_job i inp out s"] assms
  by (simp add: create_job_def group_similar_images_Nil)

theorem all_images_skipped_witness:
  "find_images (entries (demo_world [''/in/a.jpg'', ''/in/b.png''] [])) \<noteq> []
   \<and> process_image (demo_world [''/in/a.jpg'', ''/in/b.png''] []) ''qwen2.5vl'' ''/in/a.jpg'' = None
   \<and> \<not> embed_raises (demo_world [''/in/a.jpg'', ''/in/b.png''] [])
   \<and> fs_ok (demo_world [''/in/a.jpg'', ''/in/b.png''] []) (Mkdir [''/out''])
   \<and> status (last (job_states (process_job (demo_world [''/in/a.jpg'', ''/in/b.png''] [])
        (create_job ''job-3'' ''/in'' ''/out'' (demo_settings 3))))) = Completed
   \<and> file_ops (process_job (demo_world [''/in/a.jpg'', ''/in/b.png''] [])
        (create_job ''job-3'' ''/in'' ''/out'' (demo_settings 3))) = [Mkdir [''/out'']]"
proof -
  let ?w = "demo_world [''/in/a.jpg'', ''/in/b.png''] []"
  have ne: "find_images (entries ?w) \<noteq> []" by (simp add: demo_find_images)
  have none: "\<forall>p\<in>set (find_images (entries ?w)). process_image ?w (model (demo_settings 3)) p = None"
    by (simp add: process_image_def demo_world_def)
  have ok: "fs_ok ?w (Mkdir [''/out''])" by (simp add: demo_world_def)
  have emb: "\<not> embed_raises ?w" by (simp add: demo_world_def)
  have one: "process_image ?w ''qwen2.5vl'' ''/in/a.jpg'' = None"
    by (simp add: process_image_def demo_world_def)
  from all_images_skipped [OF ne none emb ok, of "''job-3''" "''/in''"] ne one emb ok
  show ?thesis by blast
qed

subsection \<open>Finding the images: extensions in mixed case\<close>

text \<open>
  C8 (extensions are compared case-insensitively). The search asks for each extension
  in lower case and in upper case only: a file \<open>photo.Jpg\<close> is not found, and a job over a
  folder that holds just this file fails with \<open>No images found in the specified folder\<close>.
\<close>

theorem find_images_mixed_case:
  "find_images [''/in/photo.Jpg''] = []
   \<and> find_images [''/in/photo.jpg'', ''/in/photo.JPG''] = [''/in/photo.jpg'', ''/in/photo.JPG'']"
  by code_simp

subsection \<open>Finding the images: what is found\<close>

text \<open>
  A path is found exactly when its last component ends with one of the six extensions
  written in lower case or written in upper case.
\<close>

theorem find_images_iff:
  "p \<in> set (find_images paths) \<longleftrightarrow>
     p \<in> set paths
     \<and> (\<exists>ext\<in>set image_extensions.
           ends_with (path_name p) ext \<or> ends_with (path_name p) (upper ext))"
  by (auto simp: find_images_def glob_ext_def)

theorem find_images_iff_witness:
  "''/in/sub/B.PNG'' \<in> set (find_images [''/in/a.txt'', ''/in/sub/B.PNG''])
   \<and> ''.png'' \<in> set image_extensions
   \<and> ends_with (path_name ''/in/sub/B.PNG'') (upper ''.png'')"
proof -
  have a: "''/in/sub/B.PNG'' \<in> set [''/in/a.txt'', ''/in/sub/B.PNG'']" by simp
  have b: "''.png'' \<in> set image_extensions" by (simp add: image_extensions_def)
  have c: "ends_with (path_name ''/in/sub/B.PNG'') (upper ''.png'')" by code_simp
  from find_images_iff [of "''/in/sub/B.PNG''" "[''/in/a.txt'', ''/in/sub/B.PNG'']"] a b c
  show ?thesis by blast
qed


end
